theory Spec2Isabelle
  imports Main "HOL-Library.Word"
begin

section \<open>The C shims of the libostree binding\<close>

text \<open>
  The three headers under \<^verbatim>\<open>internal/plugins/ostree/pkg/libostree\<close> hold C helpers
  that the Go binding calls through cgo: an accessor for the message of a \<^verbatim>\<open>GError\<close>
  (\<^verbatim>\<open>glib_helpers.go.h\<close>), two fixed-arity wrappers of the variadic
  \<^verbatim>\<open>g_variant_builder_add\<close> (\<^verbatim>\<open>options.go.h\<close>), and the life cycle of a
  \<^verbatim>\<open>char**\<close> array of ref names (\<^verbatim>\<open>pull.go.h\<close>).

  The embedding is a state-passing one. Memory is a store of whole objects addressed by
  their base pointer; a C function becomes a HOL function from the state to either a
  fault or its result and the new state. A fault stands for the places where the C
  program aborts or has undefined behaviour; it is never a value handed back to the caller.
\<close>

subsection \<open>Pointers, objects and the store\<close>

text \<open>
  A pointer is the address of the object it points to, a natural number; the address
  space is taken to be unbounded. The null pointer is the address 0.
\<close>

type_synonym ptr = nat

abbreviation NULL :: ptr where
  "NULL \<equiv> 0"

text \<open>
  \<^verbatim>\<open>int\<close> is 32 bits wide, \<^verbatim>\<open>size_t\<close> is 64 bits wide and a pointer takes 8 bytes (LP64,
  the data model of the 64-bit platforms that OSTree runs on).
\<close>

type_synonym c_int = "32 word"
type_synonym size_t = "64 word"

abbreviation INT_MAX :: int where
  "INT_MAX \<equiv> 2147483647"

definition sizeof_ptr :: nat where
  "sizeof_ptr = 8"

text \<open>The values a \<^verbatim>\<open>GVariant\<close> can hold, as far as these helpers build them.\<close>

datatype gvariant =
    GV_string string
  | GV_strv "string list"
  | GV_variant gvariant
  | GV_tuple "gvariant list"
  | GV_dict_entry gvariant gvariant

text \<open>\<^verbatim>\<open>struct GError { GQuark domain; gint code; gchar *message; }\<close>\<close>

record GError =
  domain :: "32 word"
  code :: "32 word"
  message :: ptr

text \<open>
  The objects of the store: a block of pointer slots (what \<^verbatim>\<open>char**\<close> points to), a
  NUL-terminated string (its characters before the NUL), an error object, a variant
  value, and a variant builder with the children added to it so far.
\<close>

datatype obj =
    PtrArray "ptr list"
  | CString string
  | GErrorObj GError
  | GVariantObj gvariant
  | GVariantBuilderObj "gvariant list"

text \<open>An argument passed through the \<^verbatim>\<open>...\<close> of a variadic call: a string literal or a pointer.\<close>

datatype varg = Lit string | Ptr ptr

text \<open>
  The calls into the C library and GLib that have returned, with their arguments and,
  where there is one, the pointer returned. The state keeps them in the order they were
  made, so that a statement can say which calls a helper makes.
\<close>

datatype event =
    Ev_calloc size_t size_t ptr
  | Ev_free ptr
  | Ev_new_strv ptr int ptr
  | Ev_new_variant ptr ptr
  | Ev_builder_add ptr string "varg list"

datatype fault =
    NullDeref
  | InvalidPointer ptr
  | OutOfBounds ptr int
  | InvalidFree ptr
  | SignedOverflow
  | AssertionFailed
  | LibraryFailure

record state =
  heap :: "ptr \<Rightarrow> obj option"
  next_addr :: ptr
  trace :: "event list"

text \<open>
  Addresses are handed out in increasing order and never reused; the allocator's
  invariant is that nothing lives at \<^term>\<open>NULL\<close> or at an address not handed out yet.
\<close>

definition wf_state :: "state \<Rightarrow> bool" where
  "wf_state s \<longleftrightarrow> NULL < next_addr s \<and> heap s NULL = None \<and> (\<forall>p. next_addr s \<le> p \<longrightarrow> heap s p = None)"

text \<open>A new object is placed at the next address, which is returned.\<close>

definition alloc :: "obj \<Rightarrow> state \<Rightarrow> ptr \<times> state" where
  "alloc ob s = (next_addr s, s\<lparr>heap := (heap s)(next_addr s \<mapsto> ob), next_addr := Suc (next_addr s)\<rparr>)"

text \<open>A library call that has returned is added to the log.\<close>

definition log_event :: "event \<Rightarrow> state \<Rightarrow> state" where
  "log_event e s = s\<lparr>trace := trace s @ [e]\<rparr>"

subsection \<open>The C library: calloc, free, and reading and writing a slot\<close>

text \<open>
  Modelled from the spec: \<^verbatim>\<open>calloc\<close> belongs to the C library, not to the sources
  ("return a zero-initialized array of that many pointer slots"). The request fails with
  a null pointer when the product of its arguments does not fit \<^verbatim>\<open>size_t\<close>; otherwise
  it yields a fresh block of zero bytes, seen here as the pointer slots it has room for,
  each null. Memory is taken to be unbounded, and a request of zero bytes yields a
  fresh block with no slot.
\<close>

definition calloc :: "size_t \<Rightarrow> size_t \<Rightarrow> state \<Rightarrow> ptr \<times> state" where
  "calloc nmemb size' s =
     (if 2 ^ 64 \<le> unat nmemb * unat size' then (NULL, log_event (Ev_calloc nmemb size' NULL) s)
      else
        (case alloc (PtrArray (replicate (unat nmemb * unat size' div sizeof_ptr) NULL)) s of
           (p, s1) \<Rightarrow> (p, log_event (Ev_calloc nmemb size' p) s1)))"

text \<open>
  Modelled from the spec: which objects are "heap-owned", that is, were handed out by
  the C allocator: slot arrays and strings. The objects of GLib are managed by GLib.
\<close>

fun malloced :: "obj \<Rightarrow> bool" where
  "malloced (PtrArray xs) = True"
| "malloced (CString str) = True"
| "malloced ob = False"

text \<open>
  Modelled from the spec: \<^verbatim>\<open>free\<close> belongs to the C library, not to the sources ("every
  non-null slot holds a heap-owned pointer"; "double-free or use-after-free by a caller
  is undefined behavior"). Freeing the null pointer does nothing; freeing a live
  heap-owned block removes it; anything else is undefined.
\<close>

definition free :: "ptr \<Rightarrow> state \<Rightarrow> fault + state" where
  "free p s =
     (if p = NULL then Inr (log_event (Ev_free p) s)
      else
        (case heap s p of
           None \<Rightarrow> Inl (InvalidFree p)
         | Some ob \<Rightarrow>
             if malloced ob then Inr (log_event (Ev_free p) (s\<lparr>heap := (heap s)(p := None)\<rparr>))
             else Inl (InvalidFree p)))"

text \<open>
  The C expression \<^verbatim>\<open>a[i]\<close>, read and written, for \<^verbatim>\<open>char **a\<close> and \<^verbatim>\<open>int i\<close>: defined
  only when \<open>a\<close> points to a live slot array and \<open>i\<close> is one of its indices.
\<close>

definition load_slot :: "ptr \<Rightarrow> int \<Rightarrow> state \<Rightarrow> fault + ptr" where
  "load_slot a i s =
     (if a = NULL then Inl NullDeref
      else
        (case heap s a of
           Some (PtrArray xs) \<Rightarrow>
             if 0 \<le> i \<and> i < int (length xs) then Inr (xs ! nat i) else Inl (OutOfBounds a i)
         | _ \<Rightarrow> Inl (InvalidPointer a)))"

definition store_slot :: "ptr \<Rightarrow> int \<Rightarrow> ptr \<Rightarrow> state \<Rightarrow> fault + state" where
  "store_slot a i v s =
     (if a = NULL then Inl NullDeref
      else
        (case heap s a of
           Some (PtrArray xs) \<Rightarrow>
             if 0 \<le> i \<and> i < int (length xs)
             then Inr (s\<lparr>heap := (heap s)(a \<mapsto> PtrArray (xs[nat i := v]))\<rparr>)
             else Inl (OutOfBounds a i)
         | _ \<Rightarrow> Inl (InvalidPointer a)))"

subsection \<open>GLib: building variants\<close>

text \<open>
  Modelled from the spec: how GLib reads a null-terminated string array, as
  \<^verbatim>\<open>g_variant_new_strv\<close> does when its length argument is negative. The slots are read in
  order up to the first null one; each slot read must point to a string, and reading on
  past the last slot is an out-of-bounds read.
\<close>

fun read_strv :: "ptr \<Rightarrow> nat \<Rightarrow> ptr list \<Rightarrow> state \<Rightarrow> fault + string list" where
  "read_strv a i [] s = Inl (OutOfBounds a (int i))"
| "read_strv a i (p # ps) s =
     (if p = NULL then Inr []
      else
        (case heap s p of
           Some (CString str) \<Rightarrow>
             (case read_strv a (Suc i) ps s of
                Inl f \<Rightarrow> Inl f
              | Inr strs \<Rightarrow> Inr (str # strs))
         | _ \<Rightarrow> Inl (InvalidPointer p)))"

text \<open>
  Modelled from the spec: how GLib reads a string array of a given length: every slot
  must point to a string.
\<close>

fun read_strings :: "ptr list \<Rightarrow> state \<Rightarrow> fault + string list" where
  "read_strings [] s = Inr []"
| "read_strings (p # ps) s =
     (case heap s p of
        Some (CString str) \<Rightarrow>
          (case read_strings ps s of
             Inl f \<Rightarrow> Inl f
           | Inr strs \<Rightarrow> Inr (str # strs))
      | _ \<Rightarrow> Inl (InvalidPointer p))"

text \<open>
  Modelled from the spec: \<^verbatim>\<open>g_variant_new_strv\<close> is GLib's, not part of the sources ("wrap
  the whole array as a string-array tagged value"). It copies the strings into a new
  variant value and returns a pointer to it.
\<close>

definition g_variant_new_strv :: "ptr \<Rightarrow> int \<Rightarrow> state \<Rightarrow> fault + ptr \<times> state" where
  "g_variant_new_strv strv len s =
     (if strv = NULL then Inl NullDeref
      else
        (case heap s strv of
           Some (PtrArray xs) \<Rightarrow>
             (case (if len < 0 then read_strv strv 0 xs s
                    else if nat len \<le> length xs then read_strings (take (nat len) xs) s
                    else Inl (OutOfBounds strv (int (length xs)))) of
                Inl f \<Rightarrow> Inl f
              | Inr strs \<Rightarrow>
                  (case alloc (GVariantObj (GV_strv strs)) s of
                     (v, s') \<Rightarrow> Inr (v, log_event (Ev_new_strv strv len v) s')))
         | _ \<Rightarrow> Inl (InvalidPointer strv)))"

text \<open>
  Modelled from the spec: \<^verbatim>\<open>g_variant_new_variant\<close> is GLib's ("tagged value: a value
  wrapped with explicit runtime type information"). It boxes the value it is given.
\<close>

definition g_variant_new_variant :: "ptr \<Rightarrow> state \<Rightarrow> fault + ptr \<times> state" where
  "g_variant_new_variant value s =
     (case heap s value of
        Some (GVariantObj x) \<Rightarrow>
          (case alloc (GVariantObj (GV_variant x)) s of
             (v, s') \<Rightarrow> Inr (v, log_event (Ev_new_variant value v) s'))
      | _ \<Rightarrow> Inl LibraryFailure)"

text \<open>
  Modelled from the spec: the argument that GLib takes for an \<^verbatim>\<open>s\<close> in a format tag
  ("string key"): a literal, or a pointer to a string.
\<close>

fun string_arg :: "varg \<Rightarrow> state \<Rightarrow> string option" where
  "string_arg (Lit str) s = Some str"
| "string_arg (Ptr p) s = (case heap s p of Some (CString str) \<Rightarrow> Some str | _ \<Rightarrow> None)"

text \<open>
  Modelled from the spec: the argument that GLib takes for \<^verbatim>\<open>@v\<close> in a format tag ("tagged
  value"): a pointer to a boxed variant.
\<close>

fun boxed_arg :: "varg \<Rightarrow> state \<Rightarrow> gvariant option" where
  "boxed_arg (Ptr p) s = (case heap s p of Some (GVariantObj (GV_variant x)) \<Rightarrow> Some (GV_variant x) | _ \<Rightarrow> None)"
| "boxed_arg (Lit str) s = None"

text \<open>
  Modelled from the spec: the value that GLib builds from a format tag and its arguments
  ("entries are inserted using format tags \<^verbatim>\<open>{s@v}\<close> (string key, tagged value) and
  \<^verbatim>\<open>(ss)\<close> (two-string tuple)"). Other tags are not used by the sources and are left
  without a value, as are arguments that do not fit the tag.
\<close>

definition g_variant_new_va :: "string \<Rightarrow> varg list \<Rightarrow> state \<Rightarrow> gvariant option" where
  "g_variant_new_va format_string args s =
     (if format_string = ''{s@v}'' then
        (case args of
           [k, v] \<Rightarrow>
             (case (string_arg k s, boxed_arg v s) of
                (Some key, Some boxed) \<Rightarrow> Some (GV_dict_entry (GV_string key) boxed)
              | _ \<Rightarrow> None)
         | _ \<Rightarrow> None)
      else if format_string = ''(ss)'' then
        (case args of
           [a, b] \<Rightarrow>
             (case (string_arg a s, string_arg b s) of
                (Some x, Some y) \<Rightarrow> Some (GV_tuple [GV_string x, GV_string y])
              | _ \<Rightarrow> None)
         | _ \<Rightarrow> None)
      else None)"

text \<open>
  Modelled from the spec: \<^verbatim>\<open>g_variant_builder_add\<close> is GLib's variadic call, not part of
  the sources. It appends the value built from the tag and the arguments to the
  children of the builder; a pointer that is not a builder, or arguments that do not fit
  the tag, are failures raised by the library ("typically fatal assertions on malformed
  builder state, not recoverable errors").
\<close>

definition g_variant_builder_add :: "ptr \<Rightarrow> string \<Rightarrow> varg list \<Rightarrow> state \<Rightarrow> fault + state" where
  "g_variant_builder_add builder format_string args s =
     (case heap s builder of
        Some (GVariantBuilderObj children) \<Rightarrow>
          (case g_variant_new_va format_string args s of
             None \<Rightarrow> Inl LibraryFailure
           | Some child \<Rightarrow>
               Inr (log_event (Ev_builder_add builder format_string args)
                      (s\<lparr>heap := (heap s)(builder \<mapsto> GVariantBuilderObj (children @ [child]))\<rparr>)))
      | _ \<Rightarrow> Inl LibraryFailure)"

text \<open>
  Modelled from the spec: reading a value back ("decodes back to the original key and
  value(s)") is done by GLib's accessors, which are not part of the sources. An entry
  built with \<^verbatim>\<open>{s@v}\<close> gives its key and its boxed value.
\<close>

fun decode_entry :: "gvariant \<Rightarrow> (string \<times> gvariant) option" where
  "decode_entry (GV_dict_entry (GV_string key) (GV_variant x)) = Some (key, GV_variant x)"
| "decode_entry v = None"

text \<open>Modelled from the spec: a tuple built with \<^verbatim>\<open>(ss)\<close> gives its two strings.\<close>

fun decode_string_tuple :: "gvariant \<Rightarrow> (string \<times> string) option" where
  "decode_string_tuple (GV_tuple [GV_string x, GV_string y]) = Some (x, y)"
| "decode_string_tuple v = None"

text \<open>Modelled from the spec: a boxed string array gives its strings, in order.\<close>

fun decode_strv :: "gvariant \<Rightarrow> string list option" where
  "decode_strv (GV_variant (GV_strv strs)) = Some strs"
| "decode_strv v = None"

subsection \<open>\<^verbatim>\<open>glib_helpers.go.h\<close>\<close>

text \<open>
  \<^verbatim>\<open>_g_error_get_message\<close> (the leading underscore is dropped: a HOL name starts with
  a letter). \<^verbatim>\<open>g_assert\<close> is GLib's macro; the header does not define
  \<^verbatim>\<open>G_DISABLE_ASSERT\<close>, so a failed assertion aborts the program.
\<close>

definition g_error_get_message :: "ptr \<Rightarrow> state \<Rightarrow> fault + ptr \<times> state" where
  "g_error_get_message error s =
     (if error \<noteq> NULL then
        (case heap s error of
           Some (GErrorObj e) \<Rightarrow> Inr (message e, s)
         | _ \<Rightarrow> Inl (InvalidPointer error))
      else Inl AssertionFailed)"

subsection \<open>\<^verbatim>\<open>options.go.h\<close>\<close>

definition g_variant_builder_add_variant :: "ptr \<Rightarrow> ptr \<Rightarrow> ptr \<Rightarrow> state \<Rightarrow> fault + state" where
  "g_variant_builder_add_variant builder key value s =
     g_variant_builder_add builder ''{s@v}'' [Ptr key, Ptr value] s"

definition g_variant_builder_add_string_tuple :: "ptr \<Rightarrow> ptr \<Rightarrow> ptr \<Rightarrow> state \<Rightarrow> fault + state" where
  "g_variant_builder_add_string_tuple builder key value s =
     g_variant_builder_add builder ''(ss)'' [Ptr key, Ptr value] s"

subsection \<open>\<^verbatim>\<open>pull.go.h\<close>\<close>

text \<open>\<^verbatim>\<open>calloc(sizeof(char*), size)\<close>: the \<^verbatim>\<open>int\<close> is converted to \<^verbatim>\<open>size_t\<close> by sign extension.\<close>

definition MakeRefArray :: "c_int \<Rightarrow> state \<Rightarrow> ptr \<times> state" where
  "MakeRefArray size' s = calloc (of_nat sizeof_ptr) (scast size') s"

definition AppendRef :: "ptr \<Rightarrow> c_int \<Rightarrow> ptr \<Rightarrow> state \<Rightarrow> fault + state" where
  "AppendRef refs index ref s = store_slot refs (sint index) ref s"

text \<open>
  The loop of \<^verbatim>\<open>FreeRefArray\<close>, entered with the counter at \<open>i\<close>:
  \<^verbatim>\<open>for (; refs[i] != NULL; i++) free(refs[i]);\<close>
  The counter is an \<^verbatim>\<open>int\<close>; incrementing it at \<^verbatim>\<open>INT_MAX\<close> is a signed overflow.
\<close>

function FreeRefArray_loop :: "ptr \<Rightarrow> int \<Rightarrow> state \<Rightarrow> fault + state" where
  "FreeRefArray_loop refs i s =
     (case load_slot refs i s of
        Inl f \<Rightarrow> Inl f
      | Inr p \<Rightarrow>
          if p = NULL then Inr s
          else
            (case free p s of
               Inl f \<Rightarrow> Inl f
             | Inr s' \<Rightarrow>
                 if INT_MAX \<le> i then Inl SignedOverflow
                 else FreeRefArray_loop refs (i + 1) s'))"
  by pat_completeness auto
termination
  by (relation "measure (\<lambda>(refs, i, s). nat (INT_MAX - i))") auto

definition FreeRefArray :: "ptr \<Rightarrow> state \<Rightarrow> fault + state" where
  "FreeRefArray refs s =
     (case FreeRefArray_loop refs 0 s of
        Inl f \<Rightarrow> Inl f
      | Inr s' \<Rightarrow> free refs s')"

definition g_variant_builder_add_refs :: "ptr \<Rightarrow> ptr \<Rightarrow> state \<Rightarrow> fault + state" where
  "g_variant_builder_add_refs builder refs s =
     (case g_variant_new_strv refs (- 1) s of
        Inl f \<Rightarrow> Inl f
      | Inr (strv, s1) \<Rightarrow>
          (case g_variant_new_variant strv s1 of
             Inl f \<Rightarrow> Inl f
           | Inr (boxed, s2) \<Rightarrow>
               g_variant_builder_add builder ''{s@v}'' [Lit ''refs'', Ptr boxed] s2))"

subsection \<open>How the binding fills an array\<close>

text \<open>
  The caller's side of the protocol: \<^verbatim>\<open>AppendRef\<close> once per pointer, at the
  indices \<open>i\<close>, \<open>i + 1\<close>, ... in turn.
\<close>

fun append_all :: "ptr \<Rightarrow> nat \<Rightarrow> ptr list \<Rightarrow> state \<Rightarrow> fault + state" where
  "append_all refs i [] s = Inr s"
| "append_all refs i (p # ps) s =
     (case AppendRef refs (of_nat i) p s of
        Inl f \<Rightarrow> Inl f
      | Inr s' \<Rightarrow> append_all refs (Suc i) ps s')"

text \<open>
  The life cycle of an array as the binding runs it: allocate, fill from index 0, release.
\<close>

definition ref_array_lifecycle :: "c_int \<Rightarrow> ptr list \<Rightarrow> state \<Rightarrow> fault + state" where
  "ref_array_lifecycle n ps s =
     (case MakeRefArray n s of
        (refs, s1) \<Rightarrow>
          (case append_all refs 0 ps s1 of
             Inl f \<Rightarrow> Inl f
           | Inr s2 \<Rightarrow> FreeRefArray refs s2))"

text \<open>
  The release operation in the words of its description ("freeing every element along the
  way, then free the array itself"): \<^verbatim>\<open>free\<close> called on each pointer of a list in turn.
\<close>

fun free_all :: "ptr list \<Rightarrow> state \<Rightarrow> fault + state" where
  "free_all [] s = Inr s"
| "free_all (p # ps) s =
     (case free p s of
        Inl f \<Rightarrow> Inl f
      | Inr s' \<Rightarrow> free_all ps s')"

text \<open>The pointers \<open>ps\<close> point, one by one, to live strings with the contents \<open>strs\<close>.\<close>

definition holds_strings :: "state \<Rightarrow> ptr list \<Rightarrow> string list \<Rightarrow> bool" where
  "holds_strings s ps strs \<longleftrightarrow> map (heap s) ps = map (\<lambda>str. Some (CString str)) strs"

text \<open>
  The data model's "owned C string pointers", which is what the release operation takes
  every non-null slot to hold: pairwise distinct pointers, each to a live string of its
  own.
\<close>

definition owned_strings :: "state \<Rightarrow> ptr list \<Rightarrow> string list \<Rightarrow> bool" where
  "owned_strings s ps strs \<longleftrightarrow> distinct ps \<and> holds_strings s ps strs"

subsection \<open>Sample states\<close>

text \<open>
  The state before anything is allocated, and one in which the binding has copied the
  ref names \<^verbatim>\<open>main\<close> and \<^verbatim>\<open>dev\<close> to C strings and holds a variant builder.
\<close>

definition empty_state :: state where
  "empty_state = \<lparr>heap = (\<lambda>p. None), next_addr = 1, trace = []\<rparr>"

definition sample_state :: state where
  "sample_state =
     \<lparr>heap = (\<lambda>p. None)(1 \<mapsto> CString ''main'', 2 \<mapsto> CString ''dev'',
                3 \<mapsto> GVariantBuilderObj []),
      next_addr = 4, trace = []\<rparr>"

text \<open>
  A state with what the GLib helpers are handed: a key and a value string, a builder, a
  boxed variant, and an error object with its message.
\<close>

definition glib_state :: state where
  "glib_state =
     \<lparr>heap = (\<lambda>p. None)(1 \<mapsto> CString ''remote'', 2 \<mapsto> CString ''origin'',
                3 \<mapsto> GVariantBuilderObj [],
                4 \<mapsto> GVariantObj (GV_variant (GV_string ''flat'')),
                5 \<mapsto> CString ''No such branch'',
                6 \<mapsto> GErrorObj \<lparr>domain = 81, code = 1, message = 5\<rparr>),
      next_addr = 7, trace = []\<rparr>"

section \<open>Properties\<close>

declare FreeRefArray_loop.simps [simp del]

subsection \<open>Conversions between \<^verbatim>\<open>int\<close>, \<^verbatim>\<open>size_t\<close> and indices\<close>

lemma unat_scast_nonneg:
  fixes n :: "32 word"
  assumes "0 \<le> sint n"
  shows "unat (scast n :: 64 word) = nat (sint n)"
proof -
  have "sint n < 2 ^ 31"
    using sint_lt [of n] by simp
  also have "(2 :: int) ^ 31 < 2 ^ 64"
    by (rule power_strict_increasing) simp_all
  finally have "take_bit 64 (sint n) = sint n"
    using assms by (simp only: take_bit_int_eq_self)
  moreover have "unat (word_of_int (sint n) :: 64 word) = nat (take_bit 64 (sint n))"
    using unsigned_of_int [where 'a = nat and 'b = 64, of "sint n"] by simp
  ultimately show ?thesis
    by (simp only: scast_eq)
qed

lemma sint_of_nat_small:
  assumes "k < 2 ^ 31"
  shows "sint (of_nat k :: 32 word) = int k"
proof -
  have "int k < 2 ^ 31"
    using assms by (metis of_nat_less_iff of_nat_numeral of_nat_power)
  then have "signed_take_bit 31 (int k) = int k"
    by (simp add: signed_take_bit_int_eq_self)
  then show ?thesis
    by (simp add: signed_of_nat)
qed

lemma MakeRefArray_nonneg:
  assumes "0 \<le> sint n"
  shows "MakeRefArray n s =
    (next_addr s,
     s\<lparr>heap := (heap s)(next_addr s \<mapsto> PtrArray (replicate (nat (sint n)) NULL)),
       next_addr := Suc (next_addr s),
       trace := trace s @ [Ev_calloc 8 (scast n) (next_addr s)]\<rparr>)"
proof -
  have lt: "sint n < 2 ^ 31"
    using sint_lt [of n] by simp
  have u: "unat (scast n :: 64 word) = nat (sint n)"
    using assms by (rule unat_scast_nonneg)
  have "nat (sint n) < 2 ^ 31"
    using lt assms by (simp add: nat_less_iff)
  then have small: "\<not> (2 :: nat) ^ 64 \<le> 8 * nat (sint n)"
    by simp
  show ?thesis
    using small by (simp add: MakeRefArray_def calloc_def sizeof_ptr_def u alloc_def log_event_def)
qed

subsection \<open>The allocator's invariant and owned strings\<close>

lemma wf_state_fresh:
  assumes "wf_state s"
  shows "next_addr s \<noteq> NULL" and "heap s (next_addr s) = None"
  using assms by (simp_all add: wf_state_def)

lemma wf_state_live:
  assumes "wf_state s" and "heap s p = Some ob"
  shows "p \<noteq> NULL"
proof
  assume "p = NULL"
  with assms show False
    by (simp add: wf_state_def)
qed

lemma holds_strings_live:
  assumes "holds_strings s ps strs" and "p \<in> set ps"
  shows "\<exists>str. heap s p = Some (CString str)"
  using assms unfolding holds_strings_def
proof (induction ps arbitrary: strs)
  case Nil
  then show ?case by simp
next
  case (Cons q ps)
  then show ?case by (cases strs) auto
qed

lemma holds_strings_not_null:
  assumes "wf_state s" and "holds_strings s ps strs"
  shows "NULL \<notin> set ps"
proof
  assume "NULL \<in> set ps"
  then have "\<exists>str. heap s NULL = Some (CString str)"
    using assms(2) by (rule holds_strings_live [rotated])
  then show False
    using assms(1) by (simp add: wf_state_def)
qed

lemma holds_strings_fresh:
  assumes "wf_state s" and "holds_strings s ps strs" and "next_addr s \<le> a"
  shows "a \<notin> set ps"
proof
  assume "a \<in> set ps"
  then have "\<exists>str. heap s a = Some (CString str)"
    using assms(2) by (rule holds_strings_live [rotated])
  then show False
    using assms(1,3) by (simp add: wf_state_def)
qed

subsection \<open>Filling an array\<close>

lemma append_all_fills:
  assumes "refs \<noteq> NULL" and "heap s refs = Some (PtrArray xs)"
    and "i + length ps \<le> length xs" and "length xs < 2 ^ 31"
  shows "append_all refs i ps s =
    Inr (s\<lparr>heap := (heap s)(refs \<mapsto> PtrArray (take i xs @ ps @ drop (i + length ps) xs))\<rparr>)"
  using assms
proof (induction ps arbitrary: i s xs)
  case Nil
  then have "(heap s)(refs \<mapsto> PtrArray xs) = heap s"
    by (simp add: fun_upd_idem)
  then show ?case by simp
next
  case (Cons p ps)
  let ?s1 = "s\<lparr>heap := (heap s)(refs \<mapsto> PtrArray (xs[i := p]))\<rparr>"
  have i: "i < length xs"
    using Cons.prems by simp
  then have "i < 2 ^ 31"
    using Cons.prems by simp
  then have si: "sint (of_nat i :: 32 word) = int i"
    by (rule sint_of_nat_small)
  have step: "AppendRef refs (of_nat i) p s = Inr ?s1"
    using Cons.prems i by (simp add: AppendRef_def store_slot_def si)
  have "append_all refs (Suc i) ps ?s1 =
    Inr (?s1\<lparr>heap := (heap ?s1)(refs \<mapsto>
      PtrArray (take (Suc i) (xs[i := p]) @ ps @ drop (Suc i + length ps) (xs[i := p])))\<rparr>)"
    using Cons.prems by (intro Cons.IH) simp_all
  moreover have "take (Suc i) (xs[i := p]) = take i xs @ [p]"
    using i by (simp add: take_Suc_conv_app_nth)
  moreover have "drop (Suc i + length ps) (xs[i := p]) = drop (Suc i + length ps) xs"
    by simp
  ultimately have "append_all refs i (p # ps) s =
    Inr (s\<lparr>heap := (heap s)(refs \<mapsto> PtrArray (take i xs @ (p # ps) @ drop (i + length (p # ps)) xs))\<rparr>)"
    using step by simp
  then show ?case .
qed

lemma filled_array:
  assumes "wf_state s" and "0 \<le> sint n" and "int (length ps) \<le> sint n"
  shows "append_all (next_addr s) 0 ps (snd (MakeRefArray n s)) =
    Inr (s\<lparr>heap := (heap s)(next_addr s \<mapsto> PtrArray (ps @ replicate (nat (sint n) - length ps) NULL)),
          next_addr := Suc (next_addr s),
          trace := trace s @ [Ev_calloc 8 (scast n) (next_addr s)]\<rparr>)"
proof -
  let ?xs = "replicate (nat (sint n)) NULL"
  let ?s1 = "s\<lparr>heap := (heap s)(next_addr s \<mapsto> PtrArray ?xs),
          next_addr := Suc (next_addr s),
          trace := trace s @ [Ev_calloc 8 (scast n) (next_addr s)]\<rparr>"
  have mk: "snd (MakeRefArray n s) = ?s1"
    using assms(2) by (simp add: MakeRefArray_nonneg)
  have "sint n < 2 ^ 31"
    using sint_lt [of n] by simp
  then have len: "length ?xs < 2 ^ 31"
    using assms(2) by (simp add: nat_less_iff)
  have "append_all (next_addr s) 0 ps ?s1 =
    Inr (?s1\<lparr>heap := (heap ?s1)(next_addr s \<mapsto> PtrArray (take 0 ?xs @ ps @ drop (0 + length ps) ?xs))\<rparr>)"
    using assms len by (intro append_all_fills) (simp_all add: wf_state_fresh)
  then show ?thesis
    unfolding mk by simp
qed

subsection \<open>Freeing a list of pointers\<close>

lemma free_all_append:
  "free_all (ps @ qs) s = (case free_all ps s of Inl f \<Rightarrow> Inl f | Inr s' \<Rightarrow> free_all qs s')"
  by (induction ps arbitrary: s) (simp_all split: sum.splits)

lemma free_all_last:
  "free_all (ps @ [p]) s = (case free_all ps s of Inl f \<Rightarrow> Inl f | Inr s' \<Rightarrow> free p s')"
  by (simp add: free_all_append split: sum.splits)

lemma free_keeps_others:
  assumes "free p s = Inr s'" and "q \<noteq> p"
  shows "heap s' q = heap s q"
  using assms by (auto simp: free_def log_event_def split: if_splits option.splits)

lemma free_all_owned:
  assumes "distinct ps" and "holds_strings s ps strs" and "NULL \<notin> set ps"
  shows "free_all ps s = Inr (s\<lparr>heap := heap s |` (- set ps), trace := trace s @ map Ev_free ps\<rparr>)"
  using assms
proof (induction ps arbitrary: s strs)
  case Nil
  then show ?case by simp
next
  case (Cons p ps)
  let ?s1 = "s\<lparr>heap := (heap s)(p := None), trace := trace s @ [Ev_free p]\<rparr>"
  obtain str strs' where strs: "strs = str # strs'"
    using Cons.prems(2) by (cases strs) (auto simp: holds_strings_def)
  with Cons.prems have str: "heap s p = Some (CString str)"
    and tl: "map (heap s) ps = map (\<lambda>str. Some (CString str)) strs'"
    and "p \<noteq> NULL" and "p \<notin> set ps"
    by (auto simp: holds_strings_def)
  have fr: "free p s = Inr ?s1"
    using str \<open>p \<noteq> NULL\<close> by (simp add: free_def log_event_def)
  have "map (heap ?s1) ps = map (heap s) ps"
    using \<open>p \<notin> set ps\<close> by (auto simp: map_eq_conv)
  then have "holds_strings ?s1 ps strs'"
    using tl by (simp add: holds_strings_def)
  then have "free_all ps ?s1 =
    Inr (?s1\<lparr>heap := heap ?s1 |` (- set ps), trace := trace ?s1 @ map Ev_free ps\<rparr>)"
    using Cons.prems by (intro Cons.IH) simp_all
  moreover have "(heap s)(p := None) |` (- set ps) = heap s |` (- set (p # ps))"
    by (rule ext) (simp add: restrict_map_def)
  ultimately have "free_all (p # ps) s =
    Inr (s\<lparr>heap := heap s |` (- set (p # ps)), trace := trace s @ map Ev_free (p # ps)\<rparr>)"
    using fr by simp
  then show ?case .
qed

lemma free_all_keeps_others:
  assumes "free_all ps s = Inr s'" and "q \<notin> set ps"
  shows "heap s' q = heap s q"
  using assms
proof (induction ps arbitrary: s)
  case Nil
  then show ?case by simp
next
  case (Cons p ps)
  then obtain s1 where fr: "free p s = Inr s1" and rest: "free_all ps s1 = Inr s'"
    by (auto split: sum.splits)
  have "heap s' q = heap s1 q"
    using rest Cons.prems(2) by (intro Cons.IH) simp_all
  also have "heap s1 q = heap s q"
    using fr Cons.prems(2) by (intro free_keeps_others) auto
  finally show ?case .
qed

text \<open>
  As long as the slots read are not null and none of them points to the array itself,
  the loop does what \<^const>\<open>free_all\<close> does on them, and goes on behind them.
\<close>

lemma FreeRefArray_loop_frees:
  assumes "refs \<noteq> NULL" and "heap s refs = Some (PtrArray xs)"
    and "i + length ps \<le> length xs" and "take (length ps) (drop i xs) = ps"
    and "NULL \<notin> set ps" and "refs \<notin> set ps"
    and "int (i + length ps) \<le> INT_MAX"
  shows "FreeRefArray_loop refs (int i) s =
    (case free_all ps s of
       Inl f \<Rightarrow> Inl f
     | Inr s' \<Rightarrow> FreeRefArray_loop refs (int (i + length ps)) s')"
  using assms
proof (induction ps arbitrary: i s)
  case Nil
  then show ?case by simp
next
  case (Cons p ps)
  have i: "i < length xs"
    using Cons.prems by simp
  have "drop i xs = xs ! i # drop (Suc i) xs"
    using i by (simp add: Cons_nth_drop_Suc)
  with Cons.prems(4) have p: "xs ! i = p" and rest: "take (length ps) (drop (Suc i) xs) = ps"
    by simp_all
  have "p \<noteq> NULL" and "p \<noteq> refs"
    using Cons.prems by auto
  have load: "load_slot refs (int i) s = Inr p"
    using Cons.prems(1,2) i p by (simp add: load_slot_def)
  have small: "\<not> INT_MAX \<le> int i"
    using Cons.prems(7) by simp
  show ?case
  proof (cases "free p s")
    case (Inl f)
    with load \<open>p \<noteq> NULL\<close> show ?thesis
      by (subst FreeRefArray_loop.simps) simp
  next
    case (Inr s1)
    then have "heap s1 refs = Some (PtrArray xs)"
      using free_keeps_others [of p s s1 refs] \<open>p \<noteq> refs\<close> Cons.prems(2) by simp
    then have "FreeRefArray_loop refs (int (Suc i)) s1 =
      (case free_all ps s1 of
         Inl f \<Rightarrow> Inl f
       | Inr s' \<Rightarrow> FreeRefArray_loop refs (int (Suc i + length ps)) s')"
      using Cons.prems rest by (intro Cons.IH) simp_all
    with load \<open>p \<noteq> NULL\<close> small Inr show ?thesis
      by (subst FreeRefArray_loop.simps) (simp add: add.commute cong: sum.case_cong)
  qed
qed

lemma FreeRefArray_is_free_all:
  assumes "refs \<noteq> NULL" and "heap s refs = Some (PtrArray (ps @ NULL # rest))"
    and "NULL \<notin> set ps" and "refs \<notin> set ps"
    and "int (length ps) \<le> INT_MAX"
  shows "FreeRefArray refs s = free_all (ps @ [refs]) s"
proof -
  have loop: "FreeRefArray_loop refs (int 0) s =
    (case free_all ps s of
       Inl f \<Rightarrow> Inl f
     | Inr s' \<Rightarrow> FreeRefArray_loop refs (int (0 + length ps)) s')"
    using assms by (intro FreeRefArray_loop_frees [where xs = "ps @ NULL # rest"]) simp_all
  have "FreeRefArray_loop refs 0 s = free_all ps s"
  proof (cases "free_all ps s")
    case (Inl f)
    with loop show ?thesis by simp
  next
    case (Inr s')
    then have "heap s' refs = Some (PtrArray (ps @ NULL # rest))"
      using free_all_keeps_others [of ps s s' refs] assms(2,4) by simp
    then have "load_slot refs (int (length ps)) s' = Inr NULL"
      using assms(1) by (simp add: load_slot_def)
    then have "FreeRefArray_loop refs (int (length ps)) s' = Inr s'"
      by (subst FreeRefArray_loop.simps) simp
    with loop Inr show ?thesis by simp
  qed
  then show ?thesis
    by (simp add: FreeRefArray_def free_all_last)
qed

lemma FreeRefArray_terminated:
  assumes "refs \<noteq> NULL" and "heap s refs = Some (PtrArray (ps @ NULL # rest))"
    and "distinct ps" and "holds_strings s ps strs" and "NULL \<notin> set ps"
    and "int (length ps) \<le> INT_MAX"
  shows "FreeRefArray refs s =
    Inr (s\<lparr>heap := heap s |` (- (set ps \<union> {refs})), trace := trace s @ map Ev_free ps @ [Ev_free refs]\<rparr>)"
proof -
  let ?s1 = "s\<lparr>heap := heap s |` (- set ps), trace := trace s @ map Ev_free ps\<rparr>"
  have notin: "refs \<notin> set ps"
  proof
    assume "refs \<in> set ps"
    with assms(4) obtain str where "heap s refs = Some (CString str)"
      using holds_strings_live by blast
    with assms(2) show False
      by simp
  qed
  have "FreeRefArray refs s = free_all (ps @ [refs]) s"
    using assms(1,2,5) notin assms(6) by (rule FreeRefArray_is_free_all)
  moreover have "free_all ps s = Inr ?s1"
    using assms(3,4,5) by (rule free_all_owned)
  moreover have "free refs ?s1 = Inr (?s1\<lparr>heap := (heap ?s1)(refs := None), trace := trace ?s1 @ [Ev_free refs]\<rparr>)"
    using assms(1,2) notin by (simp add: free_def log_event_def)
  moreover have "(heap s |` (- set ps))(refs := None) = heap s |` (- (set ps \<union> {refs}))"
    by (rule ext) (simp add: restrict_map_def)
  ultimately show ?thesis
    by (simp add: free_all_last)
qed

lemma FreeRefArray_full:
  assumes "refs \<noteq> NULL" and "heap s refs = Some (PtrArray ps)"
    and "distinct ps" and "holds_strings s ps strs" and "NULL \<notin> set ps"
    and "int (length ps) \<le> INT_MAX"
  shows "FreeRefArray refs s = Inl (OutOfBounds refs (int (length ps)))"
proof -
  let ?s1 = "s\<lparr>heap := heap s |` (- set ps), trace := trace s @ map Ev_free ps\<rparr>"
  have notin: "refs \<notin> set ps"
  proof
    assume "refs \<in> set ps"
    with assms(4) obtain str where "heap s refs = Some (CString str)"
      using holds_strings_live by blast
    with assms(2) show False
      by simp
  qed
  have "FreeRefArray_loop refs (int 0) s =
    (case free_all ps s of
       Inl f \<Rightarrow> Inl f
     | Inr s' \<Rightarrow> FreeRefArray_loop refs (int (0 + length ps)) s')"
    using assms(1,2,5) notin assms(6) by (intro FreeRefArray_loop_frees [where xs = ps]) simp_all
  moreover have "free_all ps s = Inr ?s1"
    using assms(3,4,5) by (rule free_all_owned)
  moreover have "load_slot refs (int (length ps)) ?s1 = Inl (OutOfBounds refs (int (length ps)))"
    using assms(1,2) notin by (simp add: load_slot_def)
  then have "FreeRefArray_loop refs (int (length ps)) ?s1 = Inl (OutOfBounds refs (int (length ps)))"
    by (subst FreeRefArray_loop.simps) simp
  ultimately show ?thesis
    by (simp add: FreeRefArray_def)
qed

text \<open>The loop returns only from a null slot.\<close>

lemma FreeRefArray_loop_stops_at_null:
  assumes "FreeRefArray_loop refs i s = Inr s'" and "heap s refs = Some (PtrArray xs)" and "0 \<le> i"
  shows "\<exists>j. nat i \<le> j \<and> j < length xs \<and> xs ! j = NULL"
  using assms
proof (induction refs i s rule: FreeRefArray_loop.induct)
  case (1 refs i s)
  from "1.prems"(1) obtain p where load: "load_slot refs i s = Inr p"
    by (subst (asm) FreeRefArray_loop.simps) (auto split: sum.splits)
  with "1.prems"(2) have i: "i < int (length xs)" and p: "p = xs ! nat i"
    by (auto simp: load_slot_def split: if_splits)
  show ?case
  proof (cases "p = NULL")
    case True
    with i p "1.prems"(3) show ?thesis
      by (intro exI [of _ "nat i"]) simp
  next
    case False
    with "1.prems"(1) load obtain s1 where fr: "free p s = Inr s1"
      and small: "\<not> INT_MAX \<le> i"
      and rec: "FreeRefArray_loop refs (i + 1) s1 = Inr s'"
      by (subst (asm) FreeRefArray_loop.simps) (auto split: sum.splits if_splits)
    from fr False have s1: "heap s1 = (heap s)(p := None)"
      by (auto simp: free_def log_event_def split: option.splits if_splits)
    have "p \<noteq> refs"
    proof
      assume "p = refs"
      with s1 have "load_slot refs (i + 1) s1 = Inl (if refs = NULL then NullDeref else InvalidPointer refs)"
        by (simp add: load_slot_def)
      with rec show False
        by (subst (asm) FreeRefArray_loop.simps) simp
    qed
    with s1 "1.prems"(2) have "heap s1 refs = Some (PtrArray xs)"
      by simp
    with "1.IH" [OF load False fr small rec] "1.prems"(3)
    obtain j where "nat (i + 1) \<le> j" and "j < length xs" and "xs ! j = NULL"
      by auto
    then show ?thesis
      by (intro exI [of _ j]) auto
  qed
qed

lemma FreeRefArray_needs_null:
  assumes "heap s refs = Some (PtrArray xs)" and "NULL \<notin> set xs"
  shows "isl (FreeRefArray refs s)"
proof (cases "FreeRefArray_loop refs 0 s")
  case (Inl f)
  then show ?thesis
    by (simp add: FreeRefArray_def)
next
  case (Inr s')
  with assms(1) obtain j where "j < length xs" and "xs ! j = NULL"
    using FreeRefArray_loop_stops_at_null [of refs 0 s s' xs] by auto
  with assms(2) show ?thesis
    by (metis nth_mem)
qed

subsection \<open>Wrapping an array as a variant\<close>

lemma read_strv_prefix:
  assumes "NULL \<notin> set ps" and "holds_strings s ps strs"
  shows "read_strv a i (ps @ NULL # rest) s = Inr strs"
  using assms unfolding holds_strings_def
proof (induction ps arbitrary: i strs)
  case Nil
  then show ?case by simp
next
  case (Cons p ps)
  then obtain str strs' where strs: "strs = str # strs'"
    by (cases strs) auto
  with Cons.prems have "heap s p = Some (CString str)"
    and "map (heap s) ps = map (\<lambda>str. Some (CString str)) strs'"
    and "p \<noteq> NULL" and "NULL \<notin> set ps"
    by auto
  then show ?case
    using strs Cons.IH [of strs' "Suc i"] by simp
qed

lemma g_variant_builder_add_refs_terminated:
  assumes "wf_state s"
    and "heap s builder = Some (GVariantBuilderObj children)"
    and "heap s refs = Some (PtrArray (ps @ NULL # rest))"
    and "holds_strings s ps strs"
  shows "g_variant_builder_add_refs builder refs s =
    Inr (s\<lparr>heap := (heap s)
            (next_addr s \<mapsto> GVariantObj (GV_strv strs),
             Suc (next_addr s) \<mapsto> GVariantObj (GV_variant (GV_strv strs)),
             builder \<mapsto> GVariantBuilderObj
               (children @ [GV_dict_entry (GV_string ''refs'') (GV_variant (GV_strv strs))])),
          next_addr := Suc (Suc (next_addr s)),
          trace := trace s @
            [Ev_new_strv refs (- 1) (next_addr s),
             Ev_new_variant (next_addr s) (Suc (next_addr s)),
             Ev_builder_add builder ''{s@v}'' [Lit ''refs'', Ptr (Suc (next_addr s))]]\<rparr>)"
proof -
  let ?a = "next_addr s"
  let ?s1 = "s\<lparr>heap := (heap s)(?a \<mapsto> GVariantObj (GV_strv strs)), next_addr := Suc ?a,
    trace := trace s @ [Ev_new_strv refs (- 1) ?a]\<rparr>"
  let ?s2 = "?s1\<lparr>heap := (heap ?s1)(Suc ?a \<mapsto> GVariantObj (GV_variant (GV_strv strs))),
    next_addr := Suc (Suc ?a), trace := trace ?s1 @ [Ev_new_variant ?a (Suc ?a)]\<rparr>"
  have nonnull: "NULL \<notin> set ps"
    using assms(1,4) by (rule holds_strings_not_null)
  have refs: "refs \<noteq> NULL"
    using assms(1,3) by (rule wf_state_live)
  have b1: "builder \<noteq> ?a" and b2: "builder \<noteq> Suc ?a"
    using assms(1,2) by (auto simp: wf_state_def)
  have "read_strv refs 0 (ps @ NULL # rest) s = Inr strs"
    using nonnull assms(4) by (rule read_strv_prefix)
  then have strv: "g_variant_new_strv refs (- 1) s = Inr (?a, ?s1)"
    using refs assms(3) by (simp add: g_variant_new_strv_def alloc_def log_event_def)
  have boxed: "g_variant_new_variant ?a ?s1 = Inr (Suc ?a, ?s2)"
    by (simp add: g_variant_new_variant_def alloc_def log_event_def)
  have "heap ?s2 builder = Some (GVariantBuilderObj children)"
    using b1 b2 assms(2) by simp
  moreover have "g_variant_new_va ''{s@v}'' [Lit ''refs'', Ptr (Suc ?a)] ?s2 =
    Some (GV_dict_entry (GV_string ''refs'') (GV_variant (GV_strv strs)))"
    by (simp add: g_variant_new_va_def)
  ultimately have "g_variant_builder_add builder ''{s@v}'' [Lit ''refs'', Ptr (Suc ?a)] ?s2 =
    Inr (log_event (Ev_builder_add builder ''{s@v}'' [Lit ''refs'', Ptr (Suc ?a)])
      (?s2\<lparr>heap := (heap ?s2)(builder \<mapsto> GVariantBuilderObj
         (children @ [GV_dict_entry (GV_string ''refs'') (GV_variant (GV_strv strs))]))\<rparr>))"
    by (simp only: g_variant_builder_add_def option.case obj.case)
  then show ?thesis
    using strv boxed by (simp add: g_variant_builder_add_refs_def log_event_def)
qed

subsection \<open>Allocation\<close>

text \<open>
  C7. For every count \<open>n \<ge> 0\<close>, \<^verbatim>\<open>MakeRefArray(n)\<close> returns a freshly allocated array
  of exactly \<open>n\<close> pointer slots, each of them null: the pointer returned is not null and
  was not live before, the block it names has \<open>n\<close> null slots, and nothing else in the
  store changes. The only library call made is the one \<^verbatim>\<open>calloc\<close>.
\<close>

theorem MakeRefArray_zeroed:
  assumes "wf_state s" and "0 \<le> sint n"
  shows "MakeRefArray n s =
      (next_addr s,
       s\<lparr>heap := (heap s)(next_addr s \<mapsto> PtrArray (replicate (nat (sint n)) NULL)),
         next_addr := Suc (next_addr s),
         trace := trace s @ [Ev_calloc 8 (scast n) (next_addr s)]\<rparr>)
    \<and> next_addr s \<noteq> NULL \<and> heap s (next_addr s) = None"
  using assms by (simp add: MakeRefArray_nonneg wf_state_fresh)

theorem MakeRefArray_zeroed_witness:
  "wf_state empty_state \<and> 0 \<le> sint (3 :: c_int) \<and>
   MakeRefArray 3 empty_state =
     (1, \<lparr>heap = (\<lambda>p. None)(1 \<mapsto> PtrArray [NULL, NULL, NULL]), next_addr = 2,
          trace = [Ev_calloc 8 3 1]\<rparr>)"
  using MakeRefArray_zeroed [of empty_state 3]
  by (simp add: wf_state_def empty_state_def numeral_3_eq_3)

subsection \<open>Storing a pointer\<close>

text \<open>
  C9. For every ref array, \<^verbatim>\<open>AppendRef(refs, i, p)\<close> with \<open>i\<close> in bounds stores exactly
  \<open>p\<close> at slot \<open>i\<close> and leaves every other slot, and every other object, as it was. It
  checks no bound: it is the bare store, so an index out of bounds is not turned away by
  the operation but is an out-of-bounds write, which is undefined.
\<close>

theorem AppendRef_frame:
  assumes "refs \<noteq> NULL" and "heap s refs = Some (PtrArray xs)"
  shows "AppendRef refs i p s =
    (if 0 \<le> sint i \<and> sint i < int (length xs)
     then Inr (s\<lparr>heap := (heap s)(refs \<mapsto> PtrArray (xs[nat (sint i) := p]))\<rparr>)
     else Inl (OutOfBounds refs (sint i)))"
  using assms by (simp add: AppendRef_def store_slot_def)

theorem AppendRef_frame_witness:
  "(1 :: ptr) \<noteq> NULL \<and>
   AppendRef 1 1 7 \<lparr>heap = (\<lambda>p. None)(1 \<mapsto> PtrArray [NULL, NULL, NULL]), next_addr = 2, trace = []\<rparr> =
     Inr \<lparr>heap = (\<lambda>p. None)(1 \<mapsto> PtrArray [NULL, 7, NULL]), next_addr = 2, trace = []\<rparr> \<and>
   AppendRef 1 3 7 \<lparr>heap = (\<lambda>p. None)(1 \<mapsto> PtrArray [NULL, NULL, NULL]), next_addr = 2, trace = []\<rparr> =
     Inl (OutOfBounds 1 3)"
  using AppendRef_frame [of 1 "\<lparr>heap = (\<lambda>p. None)(1 \<mapsto> PtrArray [NULL, NULL, NULL]), next_addr = 2, trace = []\<rparr>"
      "[NULL, NULL, NULL]" 1 7]
    AppendRef_frame [of 1 "\<lparr>heap = (\<lambda>p. None)(1 \<mapsto> PtrArray [NULL, NULL, NULL]), next_addr = 2, trace = []\<rparr>"
      "[NULL, NULL, NULL]" 3 7]
  by simp

subsection \<open>Releasing an array\<close>

text \<open>
  C1, as amended. Let \<open>n \<ge> 1\<close> and let \<open>ps\<close> be at most \<open>n - 1\<close> owned pointers: pairwise
  distinct, each to a live string on the heap, hence not null. After \<^verbatim>\<open>MakeRefArray(n)\<close>
  and \<^verbatim>\<open>AppendRef\<close> of \<open>ps\<close> at the indices \<open>0, 1, ...\<close>, with the other slots left null,
  \<^verbatim>\<open>FreeRefArray\<close> returns normally, having called \<^verbatim>\<open>free\<close> on exactly the pointers of
  \<open>ps\<close>, in order, and then on the array. The store is then the one before the
  allocation less the strings of \<open>ps\<close>: nothing else was freed and the array is not
  leaked. With \<open>ps\<close> empty, only the array is freed and the store is as before.
\<close>

theorem FreeRefArray_frees_owned:
  assumes "wf_state s"
    and "1 \<le> sint n"
    and "int (length ps) \<le> sint n - 1"
    and "owned_strings s ps strs"
  shows "ref_array_lifecycle n ps s =
    Inr (s\<lparr>heap := heap s |` (- set ps),
          next_addr := Suc (next_addr s),
          trace := trace s @ Ev_calloc 8 (scast n) (next_addr s) # map Ev_free ps @ [Ev_free (next_addr s)]\<rparr>)"
proof -
  let ?refs = "next_addr s"
  let ?m = "nat (sint n) - length ps"
  let ?s1 = "s\<lparr>heap := (heap s)(?refs \<mapsto> PtrArray (replicate (nat (sint n)) NULL)),
          next_addr := Suc ?refs,
          trace := trace s @ [Ev_calloc 8 (scast n) ?refs]\<rparr>"
  let ?s2 = "s\<lparr>heap := (heap s)(?refs \<mapsto> PtrArray (ps @ replicate ?m NULL)),
          next_addr := Suc ?refs,
          trace := trace s @ [Ev_calloc 8 (scast n) ?refs]\<rparr>"
  have n0: "0 \<le> sint n"
    using assms(2) by simp
  have holds: "holds_strings s ps strs" and dist: "distinct ps"
    using assms(4) by (simp_all add: owned_strings_def)
  have mk: "MakeRefArray n s = (?refs, ?s1)"
    using n0 by (simp add: MakeRefArray_nonneg)
  have "append_all ?refs 0 ps (snd (MakeRefArray n s)) = Inr ?s2"
    using assms(1,3) n0 by (intro filled_array) simp_all
  then have fill: "append_all ?refs 0 ps ?s1 = Inr ?s2"
    by (simp add: mk)
  have fresh: "?refs \<notin> set ps"
    using assms(1) holds by (rule holds_strings_fresh) simp
  have nonnull: "NULL \<notin> set ps"
    using assms(1) holds by (rule holds_strings_not_null)
  have "0 < ?m"
    using assms(3) by linarith
  then obtain m' where m': "?m = Suc m'"
    by (cases ?m) simp_all
  have "sint n < 2 ^ 31"
    using sint_lt [of n] by simp
  then have bound: "int (length ps) \<le> INT_MAX"
    using assms(3) by simp
  have holds2: "holds_strings ?s2 ps strs"
    using holds fresh by (simp add: holds_strings_def)
  have "FreeRefArray ?refs ?s2 =
    Inr (?s2\<lparr>heap := heap ?s2 |` (- (set ps \<union> {?refs})),
           trace := trace ?s2 @ map Ev_free ps @ [Ev_free ?refs]\<rparr>)"
    using assms(1) dist holds2 nonnull bound
    by (intro FreeRefArray_terminated [where rest = "replicate m' NULL"])
      (simp_all add: m' wf_state_fresh)
  moreover have "heap ?s2 |` (- (set ps \<union> {?refs})) = heap s |` (- set ps)"
    using assms(1) by (intro ext) (simp add: restrict_map_def wf_state_fresh)
  ultimately have "FreeRefArray ?refs ?s2 =
      Inr (s\<lparr>heap := heap s |` (- set ps),
            next_addr := Suc (next_addr s),
            trace := trace s @ Ev_calloc 8 (scast n) ?refs # map Ev_free ps @ [Ev_free ?refs]\<rparr>)"
    by simp
  then show ?thesis
    by (simp add: ref_array_lifecycle_def mk fill)
qed

theorem FreeRefArray_frees_owned_witness:
  "wf_state sample_state \<and> owned_strings sample_state [1, 2] [''main'', ''dev''] \<and>
   ref_array_lifecycle 3 [1, 2] sample_state =
     Inr (sample_state\<lparr>heap := heap sample_state |` (- {1, 2}),
           next_addr := 5,
           trace := [Ev_calloc 8 3 4, Ev_free 1, Ev_free 2, Ev_free 4]\<rparr>) \<and>
   ref_array_lifecycle 1 [] empty_state =
     Inr (empty_state\<lparr>heap := heap empty_state |` (- {}),
           next_addr := 2,
           trace := [Ev_calloc 8 1 1, Ev_free 1]\<rparr>)"
proof -
  have wf: "wf_state sample_state" and wf0: "wf_state empty_state"
    by (simp_all add: wf_state_def sample_state_def empty_state_def)
  have own: "owned_strings sample_state [1, 2] [''main'', ''dev'']"
    and own0: "owned_strings empty_state [] []"
    by (simp_all add: owned_strings_def holds_strings_def sample_state_def)
  have "next_addr sample_state = 4" and "trace sample_state = []"
    and "next_addr empty_state = 1" and "trace empty_state = []"
    by (simp_all add: sample_state_def empty_state_def)
  then show ?thesis
    using wf own
      FreeRefArray_frees_owned [OF wf _ _ own, of 3]
      FreeRefArray_frees_owned [OF wf0 _ _ own0, of 1]
    by simp
qed

text \<open>
  C1 as it was stated asks of the pointers only that they are not null, and that is not
  enough. \<^verbatim>\<open>FreeRefArray\<close> calls \<^verbatim>\<open>free\<close> once per populated slot and checks nothing:
  with the pointer of one live string appended at the indices 0 and 1 of an array of
  three slots, it frees that string twice; with a pointer to no live block appended, it
  frees what was never allocated. Either is undefined.
\<close>

theorem FreeRefArray_unowned_counterexample:
  "1 \<le> sint (3 :: c_int) \<and> int (length [1 :: ptr, 1]) \<le> sint (3 :: c_int) - 1 \<and>
   NULL \<notin> set [1 :: ptr, 1] \<and>
   ref_array_lifecycle 3 [1, 1] sample_state = Inl (InvalidFree 1) \<and>
   int (length [9 :: ptr]) \<le> sint (3 :: c_int) - 1 \<and> NULL \<notin> set [9 :: ptr] \<and>
   ref_array_lifecycle 3 [9] sample_state = Inl (InvalidFree 9)"
  by (simp add: ref_array_lifecycle_def MakeRefArray_def calloc_def alloc_def log_event_def
      sizeof_ptr_def sample_state_def AppendRef_def store_slot_def load_slot_def free_def
      FreeRefArray_def FreeRefArray_loop.simps)

text \<open>
  C8. If all \<open>n\<close> slots of an array made by \<^verbatim>\<open>MakeRefArray(n)\<close> are filled with non-null
  pointers, so that no slot is left null, \<^verbatim>\<open>FreeRefArray\<close> does not return normally,
  whatever the pointers are. When they are owned strings, the scan frees them all and
  then reads slot \<open>n\<close>, which is past the end of the block: the access at index \<open>n\<close> is
  out of bounds.
\<close>

theorem FreeRefArray_unterminated:
  assumes "wf_state s"
    and "0 \<le> sint n"
    and "int (length ps) = sint n"
    and "NULL \<notin> set ps"
  shows "\<exists>refs s1 s2.
    MakeRefArray n s = (refs, s1) \<and>
    append_all refs 0 ps s1 = Inr s2 \<and>
    heap s2 refs = Some (PtrArray ps) \<and>
    isl (FreeRefArray refs s2) \<and>
    (owned_strings s ps strs \<longrightarrow> FreeRefArray refs s2 = Inl (OutOfBounds refs (sint n)))"
proof -
  let ?refs = "next_addr s"
  let ?s2 = "s\<lparr>heap := (heap s)(?refs \<mapsto> PtrArray ps),
          next_addr := Suc ?refs,
          trace := trace s @ [Ev_calloc 8 (scast n) ?refs]\<rparr>"
  have mk: "MakeRefArray n s = (?refs, snd (MakeRefArray n s))"
    using assms(2) by (simp add: MakeRefArray_nonneg)
  have "append_all ?refs 0 ps (snd (MakeRefArray n s)) =
    Inr (s\<lparr>heap := (heap s)(?refs \<mapsto> PtrArray (ps @ replicate (nat (sint n) - length ps) NULL)),
          next_addr := Suc ?refs,
          trace := trace s @ [Ev_calloc 8 (scast n) ?refs]\<rparr>)"
    using assms(1,2,3) by (intro filled_array) simp_all
  moreover have "nat (sint n) - length ps = 0"
    using assms(3) by simp
  ultimately have fill: "append_all ?refs 0 ps (snd (MakeRefArray n s)) = Inr ?s2"
    by simp
  have array: "heap ?s2 ?refs = Some (PtrArray ps)"
    by simp
  then have fails: "isl (FreeRefArray ?refs ?s2)"
    using assms(4) by (rule FreeRefArray_needs_null)
  have "FreeRefArray ?refs ?s2 = Inl (OutOfBounds ?refs (sint n))" if own: "owned_strings s ps strs"
  proof -
    have holds: "holds_strings s ps strs" and dist: "distinct ps"
      using own by (simp_all add: owned_strings_def)
    have fresh: "?refs \<notin> set ps"
      using assms(1) holds by (rule holds_strings_fresh) simp
    have "sint n < 2 ^ 31"
      using sint_lt [of n] by simp
    then have bound: "int (length ps) \<le> INT_MAX"
      using assms(3) by simp
    have holds2: "holds_strings ?s2 ps strs"
      using holds fresh by (simp add: holds_strings_def)
    have "FreeRefArray ?refs ?s2 = Inl (OutOfBounds ?refs (int (length ps)))"
      using assms(1,4) dist holds2 bound
      by (intro FreeRefArray_full) (simp_all add: wf_state_fresh)
    then show ?thesis
      using assms(3) by simp
  qed
  then show ?thesis
    using mk fill array fails by blast
qed

theorem FreeRefArray_unterminated_witness:
  "wf_state sample_state \<and> NULL \<notin> set [1 :: ptr, 2] \<and>
   owned_strings sample_state [1, 2] [''main'', ''dev''] \<and>
   (\<exists>refs s1 s2.
      MakeRefArray 2 sample_state = (refs, s1) \<and>
      append_all refs 0 [1, 2] s1 = Inr s2 \<and>
      heap s2 refs = Some (PtrArray [1, 2]) \<and>
      isl (FreeRefArray refs s2) \<and>
      FreeRefArray refs s2 = Inl (OutOfBounds refs 2))"
proof -
  have wf: "wf_state sample_state"
    by (simp add: wf_state_def sample_state_def)
  have own: "owned_strings sample_state [1, 2] [''main'', ''dev'']"
    by (simp add: owned_strings_def holds_strings_def sample_state_def)
  show ?thesis
    using wf own FreeRefArray_unterminated [OF wf, of 2 "[1, 2]" "[''main'', ''dev'']"]
    by simp
qed

subsection \<open>The entry added for an array\<close>

text \<open>
  C2. Let the array at \<open>refs\<close> hold pointers to the strings \<open>strs\<close> followed only by null
  slots, at least one. Then \<^verbatim>\<open>g_variant_builder_add_refs\<close> adds exactly one child to the
  builder: a dictionary entry whose key is the string \<^verbatim>\<open>refs\<close> and whose value is the boxed
  string array of \<open>strs\<close>, in the order of the slots and unchanged, as decoding it shows.
  The calls to GLib are modelled.
\<close>

theorem g_variant_builder_add_refs_entry:
  assumes "wf_state s"
    and "heap s builder = Some (GVariantBuilderObj children)"
    and "heap s refs = Some (PtrArray (ps @ replicate (Suc m) NULL))"
    and "holds_strings s ps strs"
  shows "\<exists>s' child boxed.
    g_variant_builder_add_refs builder refs s = Inr s' \<and>
    heap s' builder = Some (GVariantBuilderObj (children @ [child])) \<and>
    child = GV_dict_entry (GV_string ''refs'') (GV_variant (GV_strv strs)) \<and>
    decode_entry child = Some (''refs'', boxed) \<and>
    decode_strv boxed = Some strs"
proof -
  have "heap s refs = Some (PtrArray (ps @ NULL # replicate m NULL))"
    using assms(3) by simp
  with assms(1,2) show ?thesis
    using assms(4) by (simp add: g_variant_builder_add_refs_terminated)
qed

theorem g_variant_builder_add_refs_entry_witness:
  "wf_state sample_state \<and> holds_strings sample_state [1, 2] [''main'', ''dev''] \<and>
   (\<exists>s' child boxed.
      g_variant_builder_add_refs 3 4
        (sample_state\<lparr>heap := (heap sample_state)(4 \<mapsto> PtrArray [1, 2, NULL]), next_addr := 5\<rparr>) = Inr s' \<and>
      heap s' 3 = Some (GVariantBuilderObj [child]) \<and>
      child = GV_dict_entry (GV_string ''refs'') (GV_variant (GV_strv [''main'', ''dev''])) \<and>
      decode_entry child = Some (''refs'', boxed) \<and>
      decode_strv boxed = Some [''main'', ''dev''])"
  using g_variant_builder_add_refs_entry
    [of "sample_state\<lparr>heap := (heap sample_state)(4 \<mapsto> PtrArray [1, 2, NULL]), next_addr := 5\<rparr>"
      3 "[]" 4 "[1, 2]" 0 "[''main'', ''dev'']"]
  by (simp add: wf_state_def holds_strings_def sample_state_def)

text \<open>
  C10. Both \<^verbatim>\<open>FreeRefArray\<close> and \<^verbatim>\<open>g_variant_builder_add_refs\<close> take the first null slot
  for the end of the array, whatever the slots \<open>rest\<close> after it hold. Let \<open>ps\<close> be the slots
  before the first null one, none of them pointing to the array itself. Then
  \<^verbatim>\<open>FreeRefArray\<close> does exactly what calling \<^verbatim>\<open>free\<close> on the pointers of \<open>ps\<close> in order and
  then on the array does; when \<open>ps\<close> are owned strings this returns normally and removes
  nothing else from the store, so that what \<open>rest\<close> points to stays allocated. When \<open>ps\<close>
  point to strings, \<^verbatim>\<open>g_variant_builder_add_refs\<close> encodes exactly those strings. The
  counter of the loop is an \<^verbatim>\<open>int\<close>, so the first null slot is taken to be at an index
  of at most \<^verbatim>\<open>INT_MAX\<close>, as it is in every array that \<^verbatim>\<open>MakeRefArray\<close> makes.
\<close>

theorem first_null_ends_array:
  assumes "wf_state s"
    and "heap s refs = Some (PtrArray (ps @ NULL # rest))"
    and "NULL \<notin> set ps" and "refs \<notin> set ps"
    and "int (length ps) \<le> INT_MAX"
  shows "FreeRefArray refs s = free_all (ps @ [refs]) s
    \<and> (owned_strings s ps strs \<longrightarrow>
         FreeRefArray refs s =
           Inr (s\<lparr>heap := heap s |` (- (set ps \<union> {refs})),
                 trace := trace s @ map Ev_free ps @ [Ev_free refs]\<rparr>))
    \<and> (holds_strings s ps strs \<and> heap s builder = Some (GVariantBuilderObj children) \<longrightarrow>
         (\<exists>s'. g_variant_builder_add_refs builder refs s = Inr s' \<and>
            heap s' builder = Some (GVariantBuilderObj
              (children @ [GV_dict_entry (GV_string ''refs'') (GV_variant (GV_strv strs))]))))"
proof -
  have refs: "refs \<noteq> NULL"
    using assms(1,2) by (rule wf_state_live)
  have general: "FreeRefArray refs s = free_all (ps @ [refs]) s"
    using refs assms(2-5) by (rule FreeRefArray_is_free_all)
  have owned: "FreeRefArray refs s =
      Inr (s\<lparr>heap := heap s |` (- (set ps \<union> {refs})),
            trace := trace s @ map Ev_free ps @ [Ev_free refs]\<rparr>)"
    if own: "owned_strings s ps strs"
  proof -
    have "distinct ps" and "holds_strings s ps strs"
      using own by (simp_all add: owned_strings_def)
    with refs assms(2) show ?thesis
      using assms(3,5) by (rule FreeRefArray_terminated)
  qed
  have encoded: "\<exists>s'. g_variant_builder_add_refs builder refs s = Inr s' \<and>
      heap s' builder = Some (GVariantBuilderObj
        (children @ [GV_dict_entry (GV_string ''refs'') (GV_variant (GV_strv strs))]))"
    if "holds_strings s ps strs" and "heap s builder = Some (GVariantBuilderObj children)"
    using assms(1,2) that by (simp add: g_variant_builder_add_refs_terminated)
  show ?thesis
    using general owned encoded by blast
qed

theorem first_null_ends_array_witness:
  "wf_state (sample_state\<lparr>heap := (heap sample_state)(4 \<mapsto> PtrArray [1, NULL, 2]), next_addr := 5\<rparr>) \<and>
   owned_strings (sample_state\<lparr>heap := (heap sample_state)(4 \<mapsto> PtrArray [1, NULL, 2]), next_addr := 5\<rparr>)
     [1] [''main''] \<and>
   FreeRefArray 4 (sample_state\<lparr>heap := (heap sample_state)(4 \<mapsto> PtrArray [1, NULL, 2]), next_addr := 5\<rparr>) =
     free_all [1, 4] (sample_state\<lparr>heap := (heap sample_state)(4 \<mapsto> PtrArray [1, NULL, 2]), next_addr := 5\<rparr>) \<and>
   FreeRefArray 4 (sample_state\<lparr>heap := (heap sample_state)(4 \<mapsto> PtrArray [1, NULL, 2]), next_addr := 5\<rparr>) =
     Inr (sample_state\<lparr>heap := (heap sample_state)(4 \<mapsto> PtrArray [1, NULL, 2]) |` (- {1, 4}),
           next_addr := 5, trace := [Ev_free 1, Ev_free 4]\<rparr>) \<and>
   (\<exists>s'. g_variant_builder_add_refs 3 4
           (sample_state\<lparr>heap := (heap sample_state)(4 \<mapsto> PtrArray [1, NULL, 2]), next_addr := 5\<rparr>) = Inr s' \<and>
         heap s' 3 = Some (GVariantBuilderObj
           [GV_dict_entry (GV_string ''refs'') (GV_variant (GV_strv [''main'']))]))"
  using first_null_ends_array
    [of "sample_state\<lparr>heap := (heap sample_state)(4 \<mapsto> PtrArray [1, NULL, 2]), next_addr := 5\<rparr>"
      4 "[1]" "[2]" "[''main'']" 3 "[]"]
  by (simp add: wf_state_def owned_strings_def holds_strings_def sample_state_def free_def log_event_def)

subsection \<open>The message of an error\<close>

text \<open>
  C3. For every non-null pointer to an error object, \<^verbatim>\<open>_g_error_get_message\<close> returns
  exactly the pointer held in the object's \<^verbatim>\<open>message\<close> field, and the state after the call
  is the state before it: nothing is copied, written, freed or logged, and the error
  object is as it was.
\<close>

theorem g_error_get_message_returns_field:
  assumes "error \<noteq> NULL" and "heap s error = Some (GErrorObj e)"
  shows "g_error_get_message error s = Inr (message e, s)"
  using assms by (simp add: g_error_get_message_def)

theorem g_error_get_message_returns_field_witness:
  "(6 :: ptr) \<noteq> NULL \<and> heap glib_state 6 = Some (GErrorObj \<lparr>domain = 81, code = 1, message = 5\<rparr>) \<and>
   g_error_get_message 6 glib_state = Inr (5, glib_state)"
  using g_error_get_message_returns_field [of 6 glib_state "\<lparr>domain = 81, code = 1, message = 5\<rparr>"]
  by (simp add: glib_state_def)

text \<open>
  C4. Called with the null pointer, \<^verbatim>\<open>_g_error_get_message\<close> fails its assertion, which
  ends the program: no value is returned. Called with any other pointer it does not fail
  the assertion, whatever else happens.
\<close>

theorem g_error_get_message_asserts:
  "g_error_get_message error s = Inl AssertionFailed \<longleftrightarrow> error = NULL"
  by (simp add: g_error_get_message_def split: option.splits obj.splits)

theorem g_error_get_message_asserts_witness:
  "g_error_get_message NULL glib_state = Inl AssertionFailed \<and>
   g_error_get_message 6 glib_state \<noteq> Inl AssertionFailed"
  using g_error_get_message_asserts [of NULL glib_state] g_error_get_message_asserts [of 6 glib_state]
  by simp

subsection \<open>The two fixed-arity wrappers\<close>

text \<open>
  C5. For every builder, key and value, \<^verbatim>\<open>g_variant_builder_add_variant\<close> is one call of
  \<^verbatim>\<open>g_variant_builder_add\<close> with the format tag \<^verbatim>\<open>{s@v}\<close>, and
  \<^verbatim>\<open>g_variant_builder_add_string_tuple\<close> is one call of it with the tag \<^verbatim>\<open>(ss)\<close>, each on
  the key and the value as they were passed. The helpers check nothing themselves: they
  fail only where the library call fails, and otherwise the log of library calls grows
  by exactly that one call.
\<close>

theorem builder_add_helpers_forward:
  "g_variant_builder_add_variant builder key value s =
     g_variant_builder_add builder ''{s@v}'' [Ptr key, Ptr value] s
   \<and> g_variant_builder_add_string_tuple builder key value s =
     g_variant_builder_add builder ''(ss)'' [Ptr key, Ptr value] s
   \<and> (case g_variant_builder_add_variant builder key value s of
        Inl f \<Rightarrow> f = LibraryFailure
      | Inr s' \<Rightarrow> trace s' = trace s @ [Ev_builder_add builder ''{s@v}'' [Ptr key, Ptr value]])
   \<and> (case g_variant_builder_add_string_tuple builder key value s of
        Inl f \<Rightarrow> f = LibraryFailure
      | Inr s' \<Rightarrow> trace s' = trace s @ [Ev_builder_add builder ''(ss)'' [Ptr key, Ptr value]])"
  by (simp add: g_variant_builder_add_variant_def g_variant_builder_add_string_tuple_def
      g_variant_builder_add_def log_event_def split: option.splits obj.splits)

theorem builder_add_helpers_forward_witness:
  "(\<exists>s'. g_variant_builder_add_variant 3 1 4 glib_state = Inr s' \<and>
      trace s' = [Ev_builder_add 3 ''{s@v}'' [Ptr 1, Ptr 4]]) \<and>
   (\<exists>s'. g_variant_builder_add_string_tuple 3 1 2 glib_state = Inr s' \<and>
      trace s' = [Ev_builder_add 3 ''(ss)'' [Ptr 1, Ptr 2]]) \<and>
   g_variant_builder_add_string_tuple 3 1 4 glib_state = Inl LibraryFailure"
  using builder_add_helpers_forward [of 3 1 4 glib_state] builder_add_helpers_forward [of 3 1 2 glib_state]
  by (simp add: g_variant_builder_add_def g_variant_new_va_def glib_state_def log_event_def)

text \<open>
  C6. With a live builder and a key string: the entry that
  \<^verbatim>\<open>g_variant_builder_add_string_tuple\<close> adds for a value string decodes to the key and
  the value, and the entry that \<^verbatim>\<open>g_variant_builder_add_variant\<close> adds for a boxed variant
  decodes to the key and that boxed variant; in both cases it is the one child added to
  the builder. The call to GLib and the decoding are modelled.
\<close>

theorem builder_entries_round_trip:
  assumes "heap s builder = Some (GVariantBuilderObj children)"
    and "heap s key = Some (CString k)"
  shows "(heap s value = Some (CString v) \<longrightarrow>
      (\<exists>s' child.
         g_variant_builder_add_string_tuple builder key value s = Inr s' \<and>
         heap s' builder = Some (GVariantBuilderObj (children @ [child])) \<and>
         decode_string_tuple child = Some (k, v)))
    \<and> (heap s value = Some (GVariantObj (GV_variant x)) \<longrightarrow>
      (\<exists>s' child.
         g_variant_builder_add_variant builder key value s = Inr s' \<and>
         heap s' builder = Some (GVariantBuilderObj (children @ [child])) \<and>
         decode_entry child = Some (k, GV_variant x)))"
  using assms
  by (simp add: g_variant_builder_add_variant_def g_variant_builder_add_string_tuple_def
      g_variant_builder_add_def g_variant_new_va_def log_event_def)

theorem builder_entries_round_trip_witness:
  "(\<exists>s' child.
      g_variant_builder_add_string_tuple 3 1 2 glib_state = Inr s' \<and>
      heap s' 3 = Some (GVariantBuilderObj [child]) \<and>
      decode_string_tuple child = Some (''remote'', ''origin'')) \<and>
   (\<exists>s' child.
      g_variant_builder_add_variant 3 1 4 glib_state = Inr s' \<and>
      heap s' 3 = Some (GVariantBuilderObj [child]) \<and>
      decode_entry child = Some (''remote'', GV_variant (GV_string ''flat'')))"
  using builder_entries_round_trip [of glib_state 3 "[]" 1 "''remote''" 2 "''origin''"]
    builder_entries_round_trip [of glib_state 3 "[]" 1 "''remote''" 4 _ "GV_string ''flat''"]
  by (simp add: glib_state_def)

end
